theory Spec2Isabelle
  imports Complex_Main
begin

section \<open>Character context of the rigging toolset (core/context.py)\<close>

text \<open>
  The module keeps the current character in class attributes of \<open>Character\<close>, finds a
  character in the scene (\<open>_load\<close>) and offers a modal dialog to create one. The class
  attributes are modelled as a record that every operation takes and returns; the host
  scene is a second record. The model covers ASCII text: a \<open>char\<close> is one byte, the
  case conversions change the letters \<open>a..z\<close> and \<open>A..Z\<close> only, and \<open>\s\<close> is the ASCII
  white space; Python's Unicode case mapping and Unicode white space are not
  reproduced.
\<close>

subsection \<open>Strings: split, capitalize, \_camelCase\<close>

text \<open>\<open>s.split(d)\<close> for a one-character separator: empty pieces are kept, and the
  empty string splits into one empty piece.\<close>

fun str_split :: "char \<Rightarrow> string \<Rightarrow> string list" where
  "str_split d [] = [[]]"
| "str_split d (c # cs) =
     (if c = d then [] # str_split d cs
      else (case str_split d cs of
              [] \<Rightarrow> [[c]]
            | w # ws \<Rightarrow> (c # w) # ws))"

definition upper_char :: "char \<Rightarrow> char" where
  "upper_char c =
     (let n = (of_char c :: nat) in if 97 \<le> n \<and> n \<le> 122 then char_of (n - 32) else c)"

definition lower_char :: "char \<Rightarrow> char" where
  "lower_char c =
     (let n = (of_char c :: nat) in if 65 \<le> n \<and> n \<le> 90 then char_of (n + 32) else c)"

text \<open>\<open>word.capitalize()\<close>: the first character in upper case, all the others in lower
  case.\<close>

fun capitalize :: "string \<Rightarrow> string" where
  "capitalize [] = []"
| "capitalize (c # cs) = upper_char c # map lower_char cs"

definition camelCase :: "string \<Rightarrow> string" where
  "camelCase s = concat (map capitalize (str_split CHR '' '' s))"

subsection \<open>Scene objects and the Character class\<close>

text \<open>Modelled from the spec: the class \<open>MayaDagObject\<close> and the enumerations \<open>Side\<close>
  and \<open>Suffix\<close> come from core/maya\_object.py, which this module imports and whose
  text is missing. The spec calls the cached values scene-object references; from the
  use made of it here a \<open>MayaDagObject\<close> is a reference to a scene object by name:
  \<open>setCharacter\<close> builds the reference to the marker group before \<open>submit\<close> creates
  that group, so a reference can be made for an object that does not exist, and it is
  an ordinary object, true in a condition. \<open>MayaDagObject.compose\<close> is taken as a
  parameter \<open>cmp\<close>; \<open>Side\<close> and \<open>Suffix\<close> are listed with the members used here.\<close>

datatype dag_object = MayaDagObject string

datatype side = CENTER

datatype suffix = GROUP

type_synonym composer = "side \<Rightarrow> string \<Rightarrow> suffix \<Rightarrow> string \<Rightarrow> dag_object"

text \<open>The class attributes of \<open>Character\<close>; \<open>None\<close> is Python's \<open>None\<close>. The attribute
  \<open>controls_grp\<close> is not declared in the class body and only comes into being in
  \<open>setCharacter\<close>; before that it is absent, which the model also writes \<open>None\<close>.\<close>

record character =
  raw_name :: "string option"
  name :: "string option"
  initials :: "string option"
  marker_grp :: "dag_object option"
  output_grp :: "dag_object option"
  internals_grp :: "dag_object option"
  controls_grp :: "dag_object option"
  geometry_grp :: "dag_object option"
  pose_grp :: "dag_object option"
  systems_grp :: "dag_object option"
  bind_grp :: "dag_object option"
  layout_control :: "dag_object option"
  cog_control :: "dag_object option"

definition Character_init :: character where
  "Character_init =
     \<lparr> raw_name = None, name = None, initials = None,
       marker_grp = None, output_grp = None, internals_grp = None,
       controls_grp = None, geometry_grp = None, pose_grp = None,
       systems_grp = None, bind_grp = None,
       layout_control = None, cog_control = None \<rparr>"

definition setCharacter :: "composer \<Rightarrow> string \<Rightarrow> string \<Rightarrow> character \<Rightarrow> character" where
  "setCharacter cmp ini nm cls =
     (let cname = camelCase nm in
      cls \<lparr> raw_name := Some nm,
            name := Some cname,
            initials := Some ini,
            marker_grp := Some (MayaDagObject (cname @ ''_markers'')),
            output_grp := Some (MayaDagObject cname),
            internals_grp := Some (MayaDagObject (ini @ ''_DO_NOT_TOUCH'')),
            controls_grp := Some (cmp CENTER ''Controls'' GROUP ini),
            geometry_grp := Some (cmp CENTER ''Geometry'' GROUP ini),
            pose_grp := Some (cmp CENTER ''Pose'' GROUP ini),
            systems_grp := Some (cmp CENTER ''Systems'' GROUP ini),
            bind_grp := Some (cmp CENTER ''Bind'' GROUP ini) \<rparr>)"

subsection \<open>The host scene\<close>

text \<open>What the module asks of the host: the selection (\<open>cmds.ls(sl=True, tl=True,
  l=True)\<close>, full DAG paths), the transform nodes in the order the breadth-first
  iterator \<open>om.MItDag(kBreadthFirst, kTransform)\<close> visits them, and the attributes of
  each node. A node is known by the name that resolves to it: a path component of a
  selected object and the \<open>absoluteName()\<close> of a visited node are both looked up in
  \<open>nodes\<close>. An attribute records the arguments \<open>addAttr\<close> was given; an argument left
  out is \<open>None\<close>.\<close>

datatype attr_val = StrVal string | NumVal real

record attribute =
  attr_value :: attr_val
  attr_type :: string
  attr_lock :: "bool option"
  attr_keyable :: "bool option"

record scene =
  selection :: "string list"
  transforms :: "string list"
  nodes :: "string \<rightharpoonup> (string \<rightharpoonup> attribute)"

definition empty_scene :: scene where
  "empty_scene = \<lparr> selection = [], transforms = [], nodes = Map.empty \<rparr>"

definition NAME_ATTR :: string where "NAME_ATTR = ''rigGenName''"
definition INITIALS_ATTR :: string where "INITIALS_ATTR = ''rigGenInitials''"
definition LAYOUT_SIZE_ATTR :: string where "LAYOUT_SIZE_ATTR = ''layoutSize''"

text \<open>Modelled from the spec: the methods of \<open>MayaDagObject\<close> and of its attribute
  handles that the module calls (\<open>obj.exists()\<close>, \<open>obj.attr(a).exists()\<close>,
  \<open>obj.attr(a).get_str()\<close>, \<open>obj.attr(a).get_float()\<close>), missing with
  core/maya\_object.py. The spec describes them as thin, direct wrappers over host
  primitives, so each is read off the scene. Reading a number from an attribute that
  is not there or holds no number is a host error. \<open>get_str\<close> is only called by the
  module after \<open>exists()\<close>; for an attribute that holds no string it gives the empty
  string.\<close>

datatype py_error = CancelledError string | AttributeError | HostError

fun obj_exists :: "scene \<Rightarrow> dag_object \<Rightarrow> bool" where
  "obj_exists sc (MayaDagObject n) = (nodes sc n \<noteq> None)"

fun get_attr :: "scene \<Rightarrow> dag_object \<Rightarrow> string \<Rightarrow> attribute option" where
  "get_attr sc (MayaDagObject n) a =
     (case nodes sc n of None \<Rightarrow> None | Some ats \<Rightarrow> ats a)"

definition attr_exists :: "scene \<Rightarrow> dag_object \<Rightarrow> string \<Rightarrow> bool" where
  "attr_exists sc obj a = (get_attr sc obj a \<noteq> None)"

definition get_str :: "scene \<Rightarrow> dag_object \<Rightarrow> string \<Rightarrow> string" where
  "get_str sc obj a =
     (case get_attr sc obj a of
        Some atr \<Rightarrow> (case attr_value atr of StrVal s \<Rightarrow> s | NumVal r \<Rightarrow> [])
      | None \<Rightarrow> [])"

definition get_float :: "scene \<Rightarrow> dag_object \<Rightarrow> string \<Rightarrow> py_error + real" where
  "get_float sc obj a =
     (case get_attr sc obj a of
        Some atr \<Rightarrow> (case attr_value atr of NumVal r \<Rightarrow> Inr r | StrVal s \<Rightarrow> Inl HostError)
      | None \<Rightarrow> Inl HostError)"

subsection \<open>\_load: finding a character in the scene\<close>

text \<open>The nested function \<open>_try_set\<close>: the flag it returns and the class attributes
  after it.\<close>

definition try_set :: "composer \<Rightarrow> scene \<Rightarrow> string \<Rightarrow> character \<Rightarrow> bool \<times> character" where
  "try_set cmp sc object cls =
     (let obj = MayaDagObject object in
      if attr_exists sc obj NAME_ATTR \<and> attr_exists sc obj INITIALS_ATTR
      then (True, setCharacter cmp (get_str sc obj INITIALS_ATTR) (get_str sc obj NAME_ATTR) cls)
      else (False, cls))"

text \<open>The \<open>for\<close> loop over the components of the selected path; it returns as soon as
  a non-empty component is accepted by \<open>_try_set\<close>.\<close>

fun try_path :: "composer \<Rightarrow> scene \<Rightarrow> string list \<Rightarrow> character \<Rightarrow> bool \<times> character" where
  "try_path cmp sc [] cls = (False, cls)"
| "try_path cmp sc (obj # objs) cls =
     (if obj \<noteq> [] then
        (case try_set cmp sc obj cls of
           (True, cls') \<Rightarrow> (True, cls')
         | (False, cls') \<Rightarrow> try_path cmp sc objs cls')
      else try_path cmp sc objs cls)"

text \<open>The \<open>while not dagIt.isDone()\<close> loop; the argument is what the iterator has left
  to visit.\<close>

fun scan_dag :: "composer \<Rightarrow> scene \<Rightarrow> string list \<Rightarrow> character \<Rightarrow> bool \<times> character" where
  "scan_dag cmp sc [] cls = (False, cls)"
| "scan_dag cmp sc (object # rest) cls =
     (case try_set cmp sc object cls of
        (True, cls') \<Rightarrow> (True, cls')
      | (False, cls') \<Rightarrow> scan_dag cmp sc rest cls')"

definition load :: "composer \<Rightarrow> scene \<Rightarrow> character \<Rightarrow> bool \<times> character" where
  "load cmp sc cls =
     (let active = selection sc in
      case (if active \<noteq> [] then try_path cmp sc (str_split CHR ''|'' (hd active)) cls
            else (False, cls)) of
        (True, cls') \<Rightarrow> (True, cls')
      | (False, cls') \<Rightarrow> scan_dag cmp sc (transforms sc) cls')"

subsection \<open>Character.initialize and Character.layout\_size\<close>

text \<open>\<open>cmds.layoutDialog(ui=_create_ui)\<close> is a parameter \<open>dlg\<close>: it runs on the scene and
  the class attributes as \<open>_load\<close> left them and gives the dialog's result string with
  the scene and class attributes it leaves. The outcome of \<open>initialize\<close> records
  whether the dialog was opened, the exception raised if any, and the final state.\<close>

type_synonym dialog = "scene \<Rightarrow> character \<Rightarrow> string \<times> scene \<times> character"

record init_outcome =
  raised :: "py_error option"
  prompted :: bool
  scene_after :: scene
  cls_after :: character

definition initialize :: "composer \<Rightarrow> dialog \<Rightarrow> scene \<Rightarrow> character \<Rightarrow> init_outcome" where
  "initialize cmp dlg sc cls =
     (let cls1 = snd (load cmp sc cls) in
      if (case marker_grp cls1 of None \<Rightarrow> False | Some g \<Rightarrow> obj_exists sc g)
      then \<lparr> raised = None, prompted = False, scene_after = sc, cls_after = cls1 \<rparr>
      else (case dlg sc cls1 of (result, sc2, cls2) \<Rightarrow>
              if result = ''dismiss''
              then \<lparr> raised = Some (CancelledError ''Character creation cancelled.''),
                     prompted = True, scene_after = sc2, cls_after = cls2 \<rparr>
              else \<lparr> raised = None, prompted = True, scene_after = sc2, cls_after = cls2 \<rparr>))"

definition layout_size :: "scene \<Rightarrow> character \<Rightarrow> py_error + real" where
  "layout_size sc cls =
     (case marker_grp cls of
        None \<Rightarrow> Inl AttributeError
      | Some g \<Rightarrow> get_float sc g LAYOUT_SIZE_ATTR)"

subsection \<open>Regular expressions of the submit handler\<close>

text \<open>The two patterns that \<open>submit\<close> gives to \<open>re.match\<close> use anchors, character
  classes, sequence, alternation and the greedy repetitions \<open>*\<close> and \<open>+\<close>. The matcher
  computes every position a backtracking match can end at; a position is the number of
  characters consumed with the text still to read. \<open>^\<close> holds at position 0; \<open>$\<close> holds
  at the end of the text and just before a newline that ends it. A class is a list of
  inclusive code ranges. A repetition only goes on after an iteration that has consumed
  something, so it takes at most as many rounds as there are characters left.\<close>

datatype rx = Bol | Eol | Cls "(nat \<times> nat) list" | Seq rx rx | Alt rx rx | Star rx

type_synonym rx_pos = "nat \<times> string"

definition in_class :: "(nat \<times> nat) list \<Rightarrow> char \<Rightarrow> bool" where
  "in_class rs c = list_ex (\<lambda>(lo, hi). lo \<le> (of_char c :: nat) \<and> (of_char c :: nat) \<le> hi) rs"

fun rx_iter :: "nat \<Rightarrow> (rx_pos \<Rightarrow> rx_pos list) \<Rightarrow> rx_pos \<Rightarrow> rx_pos list" where
  "rx_iter 0 f p = [p]"
| "rx_iter (Suc k) f p =
     p # concat (map (rx_iter k f) (filter (\<lambda>q. length (snd q) < length (snd p)) (f p)))"

primrec rx_ends :: "rx \<Rightarrow> rx_pos \<Rightarrow> rx_pos list" where
  "rx_ends Bol p = (if fst p = 0 then [p] else [])"
| "rx_ends Eol p = (if snd p = [] \<or> snd p = [CHR 0x0A] then [p] else [])"
| "rx_ends (Cls rs) p =
     (case snd p of
        [] \<Rightarrow> []
      | c # cs \<Rightarrow> if in_class rs c then [(Suc (fst p), cs)] else [])"
| "rx_ends (Seq a b) p = concat (map (rx_ends b) (rx_ends a p))"
| "rx_ends (Alt a b) p = rx_ends a p @ rx_ends b p"
| "rx_ends (Star a) p = rx_iter (length (snd p)) (rx_ends a) p"

definition Plus :: "rx \<Rightarrow> rx" where
  "Plus a = Seq a (Star a)"

text \<open>\<open>re.match(pattern, s)\<close> as a truth value: some match starts at position 0.\<close>

definition re_match :: "rx \<Rightarrow> string \<Rightarrow> bool" where
  "re_match r s = (rx_ends r (0, s) \<noteq> [])"

text \<open>\<open>[A-Za-z]\<close>, \<open>[a-zA-Z0-9]\<close> and \<open>\s\<close> (on ASCII: tab to carriage return, the four
  separators 0x1C to 0x1F, and the space).\<close>

definition rx_alpha :: rx where "rx_alpha = Cls [(65, 90), (97, 122)]"
definition rx_alnum :: rx where "rx_alnum = Cls [(97, 122), (65, 90), (48, 57)]"
definition rx_space :: rx where "rx_space = Cls [(9, 13), (28, 32)]"

text \<open>\<^verbatim>\<open>^(?:[A-Za-z][a-zA-Z0-9]*(?:\s|$))+$\<close>\<close>

definition NAME_RE :: rx where
  "NAME_RE =
     Seq Bol (Seq (Plus (Seq rx_alpha (Seq (Star rx_alnum) (Alt rx_space Eol)))) Eol)"

text \<open>\<^verbatim>\<open>^[a-zA-Z][a-zA-Z0-9]*$\<close>\<close>

definition INITIALS_RE :: rx where
  "INITIALS_RE = Seq Bol (Seq rx_alpha (Seq (Star rx_alnum) Eol))"

subsection \<open>The creation dialog\<close>

text \<open>\<open>cmds.group(n=requested, em=True)\<close> makes an empty transform node and returns its
  name. The host chooses the name (it is the requested one unless the host has to change
  it); that choice is the parameter \<open>nmr\<close>. The new node is put last in \<open>transforms\<close>;
  no theorem below relies on its place in the iterator's order.\<close>

type_synonym namer = "scene \<Rightarrow> string \<Rightarrow> string"

definition group :: "namer \<Rightarrow> string \<Rightarrow> scene \<Rightarrow> string \<times> scene" where
  "group nmr requested sc =
     (let g = nmr sc requested in
      (g, sc \<lparr> transforms := transforms sc @ [g], nodes := (nodes sc)(g \<mapsto> Map.empty) \<rparr>))"

text \<open>Modelled from the spec: \<open>obj.addAttr(a, value=v, type_=ty, lock=lk, keyable=ky)\<close>,
  a method of \<open>MayaDagObject\<close> missing with core/maya\_object.py, as the direct wrapper
  that adds the attribute to the node with the arguments given. \<open>submit\<close> calls it on
  the node it has just created; on a node that is not there the scene stays as it
  is.\<close>

fun addAttr ::
  "dag_object \<Rightarrow> string \<Rightarrow> attr_val \<Rightarrow> string \<Rightarrow> bool option \<Rightarrow> bool option \<Rightarrow> scene \<Rightarrow> scene" where
  "addAttr (MayaDagObject n) a v ty lk ky sc =
     (case nodes sc n of
        None \<Rightarrow> sc
      | Some ats \<Rightarrow>
          sc \<lparr> nodes := (nodes sc)(n \<mapsto> ats(a \<mapsto>
                 \<lparr> attr_value = v, attr_type = ty, attr_lock = lk, attr_keyable = ky \<rparr>)) \<rparr>)"

text \<open>The handler of the Create button. \<open>name\<close> and \<open>initials\<close> are the texts of the two
  fields. \<open>cmds.error\<close> reports its message and raises, so the handler ends there
  (\<open>Rejected\<close>) and the dialog stays open; \<open>cmds.layoutDialog(dismiss='confirm')\<close>
  closes the dialog with that result (\<open>Dismissed\<close>). \<open>'{}_markers'.format(Character.name)\<close>
  reads the class attribute back, and \<open>format\<close> writes \<open>None\<close> as the text \<open>None\<close>.\<close>

datatype submit_result = Rejected string | Dismissed string

definition format_name :: "string option \<Rightarrow> string" where
  "format_name v = (case v of None \<Rightarrow> ''None'' | Some s \<Rightarrow> s)"

definition submit ::
  "namer \<Rightarrow> composer \<Rightarrow> string \<Rightarrow> string \<Rightarrow> scene \<Rightarrow> character \<Rightarrow> submit_result \<times> scene \<times> character" where
  "submit nmr cmp nm ini sc cls =
     (if \<not> (nm \<noteq> [] \<and> re_match NAME_RE nm)
      then (Rejected (''Invalid character name: '' @ nm), sc, cls)
      else if \<not> (ini \<noteq> [] \<and> re_match INITIALS_RE ini)
      then (Rejected (''Invalid character initials: '' @ ini), sc, cls)
      else
        (let cls1 = setCharacter cmp ini nm cls;
             (g, sc1) = group nmr (format_name (name cls1) @ ''_markers'') sc;
             char_grp = MayaDagObject g;
             sc2 = addAttr char_grp NAME_ATTR (StrVal nm) ''string'' (Some True) None sc1;
             sc3 = addAttr char_grp INITIALS_ATTR (StrVal ini) ''string'' (Some True) None sc2;
             sc4 = addAttr char_grp LAYOUT_SIZE_ATTR (NumVal 50) ''float'' None (Some False) sc3
         in (Dismissed ''confirm'', sc4, cls1)))"

text \<open>The modal dialog built by \<open>_create_ui\<close>, driven by what the user does: a click on
  Create with the two field texts as they are then, or a click on Cancel, whose command
  is \<open>cmds.layoutDialog(dismiss="dismiss")\<close>. A dialog closed without either button
  (no event left) gives the host's result for that, \<open>dismiss\<close>.\<close>

datatype ui_event = ClickCreate string string | ClickCancel

fun layoutDialog :: "namer \<Rightarrow> composer \<Rightarrow> ui_event list \<Rightarrow> dialog" where
  "layoutDialog nmr cmp [] sc cls = (''dismiss'', sc, cls)"
| "layoutDialog nmr cmp (ClickCancel # evs) sc cls = (''dismiss'', sc, cls)"
| "layoutDialog nmr cmp (ClickCreate nm ini # evs) sc cls =
     (case submit nmr cmp nm ini sc cls of
        (Dismissed result, sc', cls') \<Rightarrow> (result, sc', cls')
      | (Rejected msg, sc', cls') \<Rightarrow> layoutDialog nmr cmp evs sc' cls')"

subsection \<open>Notions used in the statements\<close>

text \<open>An object carries a character record when both \<open>rigGenName\<close> and
  \<open>rigGenInitials\<close> exist on it; \<open>set_from\<close> is \<open>setCharacter\<close> applied to the values of
  those two attributes. The objects tried from the selection are the non-empty
  components of the first selected path, root first. \<open>first_found\<close> is a search that
  stops at the first object of a list that carries a record.\<close>

definition carries :: "scene \<Rightarrow> string \<Rightarrow> bool" where
  "carries sc object =
     (attr_exists sc (MayaDagObject object) NAME_ATTR \<and>
      attr_exists sc (MayaDagObject object) INITIALS_ATTR)"

definition set_from :: "composer \<Rightarrow> scene \<Rightarrow> string \<Rightarrow> character \<Rightarrow> character" where
  "set_from cmp sc object cls =
     setCharacter cmp (get_str sc (MayaDagObject object) INITIALS_ATTR)
       (get_str sc (MayaDagObject object) NAME_ATTR) cls"

definition path_objects :: "scene \<Rightarrow> string list" where
  "path_objects sc =
     (if selection sc \<noteq> []
      then filter (\<lambda>obj. obj \<noteq> []) (str_split CHR ''|'' (hd (selection sc)))
      else [])"

definition first_found :: "composer \<Rightarrow> scene \<Rightarrow> string list \<Rightarrow> character \<Rightarrow> bool \<times> character" where
  "first_found cmp sc objs cls =
     (case find (carries sc) objs of
        None \<Rightarrow> (False, cls)
      | Some object \<Rightarrow> (True, set_from cmp sc object cls))"

text \<open>The input check of \<open>submit\<close>, and the character record it leaves on the marker
  group: the locked string attributes \<open>rigGenName\<close> and \<open>rigGenInitials\<close> and the float
  attribute \<open>layoutSize\<close> with value 50, and nothing else.\<close>

definition valid_input :: "string \<Rightarrow> string \<Rightarrow> bool" where
  "valid_input nm ini =
     (nm \<noteq> [] \<and> re_match NAME_RE nm \<and> ini \<noteq> [] \<and> re_match INITIALS_RE ini)"

definition character_record :: "string \<Rightarrow> string \<Rightarrow> (string \<rightharpoonup> attribute)" where
  "character_record nm ini =
     [NAME_ATTR \<mapsto>
        \<lparr> attr_value = StrVal nm, attr_type = ''string'',
          attr_lock = Some True, attr_keyable = None \<rparr>,
      INITIALS_ATTR \<mapsto>
        \<lparr> attr_value = StrVal ini, attr_type = ''string'',
          attr_lock = Some True, attr_keyable = None \<rparr>,
      LAYOUT_SIZE_ATTR \<mapsto>
        \<lparr> attr_value = NumVal 50, attr_type = ''float'',
          attr_lock = None, attr_keyable = Some False \<rparr>]"

text \<open>What the two patterns of \<open>submit\<close> accept, in words: a word is a letter followed
  by letters and digits; a name is one or more words, each but the last followed by one
  white-space character, the last followed by nothing, by one white-space character, or
  by one white-space character and a final newline (Python's \<open>$\<close> also holds before a
  newline that ends the text).\<close>

definition is_alpha :: "char \<Rightarrow> bool" where
  "is_alpha c = in_class [(65, 90), (97, 122)] c"

definition is_alnum :: "char \<Rightarrow> bool" where
  "is_alnum c = in_class [(97, 122), (65, 90), (48, 57)] c"

definition is_space :: "char \<Rightarrow> bool" where
  "is_space c = in_class [(9, 13), (28, 32)] c"

definition is_word :: "string \<Rightarrow> bool" where
  "is_word w = (\<exists>c cs. w = c # cs \<and> is_alpha c \<and> list_all is_alnum cs)"

definition tail_ok :: "string \<Rightarrow> bool" where
  "tail_ok t = (t = [] \<or> t = [CHR 0x0A])"

inductive name_ok :: "string \<Rightarrow> bool" where
  last_word: "is_word w \<Longrightarrow> name_ok w"
| last_sep: "is_word w \<Longrightarrow> is_space c \<Longrightarrow> name_ok (w @ [c])"
| last_sep_nl: "is_word w \<Longrightarrow> is_space c \<Longrightarrow> name_ok (w @ [c, CHR 0x0A])"
| more: "is_word w \<Longrightarrow> is_space c \<Longrightarrow> name_ok r \<Longrightarrow> name_ok (w @ c # r)"

definition name_group :: rx where
  "name_group = Seq rx_alpha (Seq (Star rx_alnum) (Alt rx_space Eol))"

text \<open>Concrete inputs for the examples: a naming scheme for composed groups, a host
  that grants every requested name, and a scene with a camera and one character.\<close>

definition sample_compose :: composer where
  "sample_compose sd part sf ini = MayaDagObject (ini @ ''_'' @ part @ ''_GRP'')"

definition grant :: namer where
  "grant sc requested = requested"

definition string_attr :: "string \<Rightarrow> attribute" where
  "string_attr s =
     \<lparr> attr_value = StrVal s, attr_type = ''string'', attr_lock = Some True, attr_keyable = None \<rparr>"

definition float_attr :: "real \<Rightarrow> attribute" where
  "float_attr v =
     \<lparr> attr_value = NumVal v, attr_type = ''float'', attr_lock = None, attr_keyable = Some False \<rparr>"

definition sample_scene :: scene where
  "sample_scene =
     \<lparr> selection = [''|MyRig_markers|hip''],
       transforms = [''persp'', ''MyRig_markers'', ''hip''],
       nodes = [''persp'' \<mapsto> Map.empty,
                ''MyRig_markers'' \<mapsto>
                   [''rigGenName'' \<mapsto> string_attr ''my rig'',
                    ''rigGenInitials'' \<mapsto> string_attr ''MR'',
                    ''layoutSize'' \<mapsto> float_attr 50],
                ''hip'' \<mapsto> Map.empty] \<rparr>"

section \<open>Properties\<close>

subsection \<open>Auxiliary facts\<close>




lemma try_set_carries:
  "try_set cmp sc object cls =
     (if carries sc object then (True, set_from cmp sc object cls) else (False, cls))"
  by (simp add: try_set_def carries_def set_from_def Let_def)

lemma first_found_Nil: "first_found cmp sc [] cls = (False, cls)"
  by (simp add: first_found_def)

lemma scan_dag_first_found: "scan_dag cmp sc objs cls = first_found cmp sc objs cls"
  by (induction objs) (simp_all add: first_found_def try_set_carries)

lemma try_path_first_found:
  "try_path cmp sc objs cls = first_found cmp sc (filter (\<lambda>obj. obj \<noteq> []) objs) cls"
  by (induction objs) (simp_all add: first_found_def try_set_carries)

lemma first_found_append:
  "first_found cmp sc (xs @ ys) cls =
     (case first_found cmp sc xs cls of
        (True, cls') \<Rightarrow> (True, cls')
      | (False, cls') \<Rightarrow> first_found cmp sc ys cls')"
  by (induction xs) (simp_all add: first_found_def)

lemma load_first_found:
  "load cmp sc cls = first_found cmp sc (path_objects sc @ transforms sc) cls"
proof -
  have "load cmp sc cls =
      (case first_found cmp sc (path_objects sc) cls of
         (True, cls') \<Rightarrow> (True, cls')
       | (False, cls') \<Rightarrow> first_found cmp sc (transforms sc) cls')"
    by (simp add: load_def try_path_first_found scan_dag_first_found path_objects_def
        first_found_Nil split: prod.split bool.split)
  then show ?thesis
    by (simp add: first_found_append)
qed

lemma first_found_flag:
  "fst (first_found cmp sc objs cls) = (\<exists>obj \<in> set objs. carries sc obj)"
  by (induction objs) (simp_all add: first_found_def)

lemma first_found_result:
  "fst (first_found cmp sc objs cls) \<Longrightarrow>
     \<exists>obj \<in> set objs. carries sc obj \<and> snd (first_found cmp sc objs cls) = set_from cmp sc obj cls"
  by (induction objs) (auto simp add: first_found_def split: if_splits)


lemmas sample_defs =
  sample_scene_def sample_compose_def string_attr_def float_attr_def carries_def set_from_def
  path_objects_def first_found_def attr_exists_def get_str_def
  NAME_ATTR_def INITIALS_ATTR_def LAYOUT_SIZE_ATTR_def

subsection \<open>setCharacter\<close>


text \<open>Claim C5, as stated: after any call of \<open>setCharacter\<close> each of the nine declared
  scene-object attributes holds a reference. It fails for \<open>layout_control\<close> and
  \<open>cog_control\<close>, which \<open>setCharacter\<close> never assigns: called on the class as declared,
  it leaves both \<open>None\<close>.\<close>

theorem setCharacter_leaves_controls_None:
  "layout_control (setCharacter sample_compose ''MR'' ''my rig'' Character_init) = None \<and>
   cog_control (setCharacter sample_compose ''MR'' ''my rig'' Character_init) = None"
  by (simp add: setCharacter_def Let_def Character_init_def)

text \<open>Claim C5, amended: after any call of \<open>setCharacter\<close> the attributes \<open>marker_grp\<close>,
  \<open>output_grp\<close>, \<open>internals_grp\<close>, \<open>geometry_grp\<close>, \<open>pose_grp\<close>, \<open>systems_grp\<close> and
  \<open>bind_grp\<close> hold a reference, while \<open>layout_control\<close> and \<open>cog_control\<close> are what
  they were before the call.\<close>

theorem setCharacter_cached_references:
  "marker_grp (setCharacter cmp ini nm cls) \<noteq> None \<and>
   output_grp (setCharacter cmp ini nm cls) \<noteq> None \<and>
   internals_grp (setCharacter cmp ini nm cls) \<noteq> None \<and>
   geometry_grp (setCharacter cmp ini nm cls) \<noteq> None \<and>
   pose_grp (setCharacter cmp ini nm cls) \<noteq> None \<and>
   systems_grp (setCharacter cmp ini nm cls) \<noteq> None \<and>
   bind_grp (setCharacter cmp ini nm cls) \<noteq> None \<and>
   layout_control (setCharacter cmp ini nm cls) = layout_control cls \<and>
   cog_control (setCharacter cmp ini nm cls) = cog_control cls"
  by (simp add: setCharacter_def Let_def)

subsection \<open>\_load\<close>






subsection \<open>Character.initialize\<close>

lemma initialize_prompted:
  "prompted (initialize cmp dlg sc cls) =
     (\<not> (case marker_grp (snd (load cmp sc cls)) of None \<Rightarrow> False | Some g \<Rightarrow> obj_exists sc g))"
  by (simp add: initialize_def Let_def split: prod.split)

lemma camelCase_sample: "camelCase ''my rig'' = ''MyRig''"
  by code_simp

lemma load_empty_scene: "load cmp empty_scene cls = (False, cls)"
  by (simp add: load_def empty_scene_def)

lemma load_sample_scene:
  "load sample_compose sample_scene cls =
     (True, setCharacter sample_compose ''MR'' ''my rig'' cls)"
  by (simp add: load_first_found) (simp add: sample_defs)

text \<open>Claim C1. Whatever the scene, \<open>initialize\<close> first lets \<open>_load\<close> inspect it. The
  creation dialog is opened only if, after that, no marker group is cached
  (\<open>marker_grp\<close> is \<open>None\<close>) or the cached one does not exist in the scene; the dialog
  then runs on the class attributes as \<open>_load\<close> left them. If a cached marker group
  exists, \<open>initialize\<close> returns without a dialog and keeps what \<open>_load\<close> set.\<close>

theorem initialize_prompts_only_without_marker:
  "prompted (initialize cmp dlg sc cls) =
     (marker_grp (snd (load cmp sc cls)) = None \<or>
      (\<exists>g. marker_grp (snd (load cmp sc cls)) = Some g \<and> \<not> obj_exists sc g)) \<and>
   (\<not> prompted (initialize cmp dlg sc cls) \<longrightarrow>
      initialize cmp dlg sc cls =
        \<lparr> raised = None, prompted = False, scene_after = sc,
          cls_after = snd (load cmp sc cls) \<rparr>) \<and>
   (prompted (initialize cmp dlg sc cls) \<longrightarrow>
      scene_after (initialize cmp dlg sc cls) = fst (snd (dlg sc (snd (load cmp sc cls)))) \<and>
      cls_after (initialize cmp dlg sc cls) = snd (snd (dlg sc (snd (load cmp sc cls)))))"
proof (cases "marker_grp (snd (load cmp sc cls))")
  case None
  then show ?thesis
    by (simp add: initialize_def Let_def split: prod.split)
next
  case (Some g)
  then show ?thesis
    by (simp add: initialize_def Let_def split: prod.split)
qed

theorem initialize_prompts_only_without_marker_witness:
  "\<not> prompted (initialize sample_compose (layoutDialog grant sample_compose [ClickCancel])
        sample_scene Character_init) \<and>
   initialize sample_compose (layoutDialog grant sample_compose [ClickCancel])
        sample_scene Character_init =
     \<lparr> raised = None, prompted = False, scene_after = sample_scene,
       cls_after = setCharacter sample_compose ''MR'' ''my rig'' Character_init \<rparr> \<and>
   prompted (initialize sample_compose (layoutDialog grant sample_compose [ClickCancel])
        empty_scene Character_init) \<and>
   scene_after (initialize sample_compose (layoutDialog grant sample_compose [ClickCancel])
        empty_scene Character_init) = empty_scene \<and>
   cls_after (initialize sample_compose (layoutDialog grant sample_compose [ClickCancel])
        empty_scene Character_init) = Character_init"
proof -
  have a: "\<not> prompted (initialize sample_compose (layoutDialog grant sample_compose [ClickCancel])
        sample_scene Character_init)"
    by (simp add: initialize_prompted load_sample_scene)
      (simp add: setCharacter_def Let_def sample_scene_def camelCase_sample)
  have b: "prompted (initialize sample_compose (layoutDialog grant sample_compose [ClickCancel])
        empty_scene Character_init)"
    by (simp add: initialize_prompted load_empty_scene Character_init_def)
  show ?thesis
    using a b
      initialize_prompts_only_without_marker [of sample_compose
        "layoutDialog grant sample_compose [ClickCancel]" sample_scene Character_init]
      initialize_prompts_only_without_marker [of sample_compose
        "layoutDialog grant sample_compose [ClickCancel]" empty_scene Character_init]
    by (simp add: load_sample_scene load_empty_scene)
qed

lemma layoutDialog_results:
  "fst (layoutDialog nmr cmp evs sc cls) = ''dismiss'' \<or>
   fst (layoutDialog nmr cmp evs sc cls) = ''confirm''"
proof (induction evs arbitrary: sc cls)
  case Nil
  show ?case by simp
next
  case (Cons ev evs)
  show ?case
  proof (cases ev)
    case ClickCancel
    then show ?thesis by simp
  next
    case (ClickCreate nm ini)
    show ?thesis
    proof (cases "submit nmr cmp nm ini sc cls")
      case (fields res sc' cls')
      show ?thesis
      proof (cases res)
        case (Rejected msg)
        with fields ClickCreate Cons.IH [of sc' cls'] show ?thesis by simp
      next
        case (Dismissed r)
        with fields have "r = ''confirm''"
          by (simp add: submit_def Let_def split: if_splits prod.splits)
        with fields ClickCreate Dismissed show ?thesis by simp
      qed
    qed
  qed
qed

text \<open>Claim C6. \<open>initialize\<close> raises \<open>CancelledError\<close> exactly when the creation dialog
  is opened and its result is \<open>dismiss\<close>; for any other result of the dialog, and
  whenever no dialog is opened, it returns normally. The dialog of this module only
  ever results in \<open>dismiss\<close> or \<open>confirm\<close>.\<close>

theorem initialize_raises_iff_dismissed:
  "raised (initialize cmp dlg sc cls) =
     (if prompted (initialize cmp dlg sc cls) \<and> fst (dlg sc (snd (load cmp sc cls))) = ''dismiss''
      then Some (CancelledError ''Character creation cancelled.'')
      else None) \<and>
   (fst (layoutDialog nmr cmp evs sc cls) = ''dismiss'' \<or>
    fst (layoutDialog nmr cmp evs sc cls) = ''confirm'')"
  by (simp only: layoutDialog_results simp_thms)
    (simp add: initialize_def Let_def split: prod.split)

subsection \<open>Character.layout\_size\<close>

text \<open>Claim C10. \<open>layout_size\<close> needs a character to have been set. With \<open>marker_grp\<close>
  still \<open>None\<close>, as on the class as declared, the call fails on the attribute access
  instead of returning a number. After \<open>setCharacter\<close> it reads the \<open>layoutSize\<close>
  attribute of the marker group, and returns its number when the group has one.\<close>

theorem layout_size_needs_character:
  "(marker_grp cls = None \<longrightarrow> layout_size sc cls = Inl AttributeError) \<and>
   layout_size sc Character_init = Inl AttributeError \<and>
   layout_size sc (setCharacter cmp ini nm cls) =
     get_float sc (MayaDagObject (camelCase nm @ ''_markers'')) LAYOUT_SIZE_ATTR \<and>
   (nodes sc (camelCase nm @ ''_markers'') = Some ats \<and>
    ats LAYOUT_SIZE_ATTR = Some atr \<and> attr_value atr = NumVal v \<longrightarrow>
      layout_size sc (setCharacter cmp ini nm cls) = Inr v)"
  by (simp add: layout_size_def setCharacter_def Let_def Character_init_def get_float_def)

theorem layout_size_needs_character_witness:
  "layout_size sample_scene Character_init = Inl AttributeError \<and>
   layout_size sample_scene (setCharacter sample_compose ''MR'' ''my rig'' Character_init) = Inr 50"
proof -
  let ?ats = "[''rigGenName'' \<mapsto> string_attr ''my rig'',
               ''rigGenInitials'' \<mapsto> string_attr ''MR'',
               ''layoutSize'' \<mapsto> float_attr 50]"
  have a: "nodes sample_scene (camelCase ''my rig'' @ ''_markers'') = Some ?ats"
    by (simp add: camelCase_sample sample_scene_def)
  have b: "?ats LAYOUT_SIZE_ATTR = Some (float_attr 50)"
    by (simp add: LAYOUT_SIZE_ATTR_def)
  have c: "attr_value (float_attr 50) = NumVal 50"
    by (simp add: float_attr_def)
  from a b c
    layout_size_needs_character [where cls = Character_init and sc = sample_scene
        and cmp = sample_compose and ini = "''MR''" and nm = "''my rig''"
        and ats = ?ats and atr = "float_attr 50" and v = 50]
  show ?thesis
    by blast
qed

subsection \<open>The two patterns\<close>

text \<open>A repetition of a character class ends after any number of characters of the
  run of class members the text starts with.\<close>

lemma rx_iter_class:
  "set (rx_iter k (rx_ends (Cls rs)) (n, s)) =
     {(n + j, drop j s) | j. j \<le> k \<and> j \<le> length (takeWhile (in_class rs) s)}"
proof (induction k arbitrary: n s)
  case 0
  show ?case by auto
next
  case (Suc k)
  show ?case
  proof (cases s)
    case Nil
    then show ?thesis by auto
  next
    case (Cons c cs)
    show ?thesis
    proof (cases "in_class rs c")
      case False
      with Cons show ?thesis by auto
    next
      case True
      have "set (rx_iter (Suc k) (rx_ends (Cls rs)) (n, s)) =
          insert (n, s) (set (rx_iter k (rx_ends (Cls rs)) (Suc n, cs)))"
        using Cons True by simp
      also have "\<dots> = insert (n, s)
          {(Suc n + j, drop j cs) | j. j \<le> k \<and> j \<le> length (takeWhile (in_class rs) cs)}"
        by (simp only: Suc.IH)
      also have "\<dots> =
          {(n + j, drop j s) | j. j \<le> Suc k \<and> j \<le> length (takeWhile (in_class rs) s)}"
      proof (intro set_eqI iffI)
        fix p
        assume "p \<in> insert (n, s)
          {(Suc n + j, drop j cs) | j. j \<le> k \<and> j \<le> length (takeWhile (in_class rs) cs)}"
        then consider "p = (n, s)"
          | j where "p = (Suc n + j, drop j cs)" "j \<le> k" "j \<le> length (takeWhile (in_class rs) cs)"
          by blast
        then show "p \<in> {(n + j, drop j s) | j. j \<le> Suc k \<and> j \<le> length (takeWhile (in_class rs) s)}"
        proof cases
          case 1
          then show ?thesis by (intro CollectI exI [of _ 0]) simp
        next
          case 2
          then show ?thesis using Cons True by (intro CollectI exI [of _ "Suc j"]) simp
        qed
      next
        fix p
        assume "p \<in> {(n + j, drop j s) | j. j \<le> Suc k \<and> j \<le> length (takeWhile (in_class rs) s)}"
        then obtain j where j: "p = (n + j, drop j s)" "j \<le> Suc k"
            "j \<le> length (takeWhile (in_class rs) s)"
          by blast
        show "p \<in> insert (n, s)
          {(Suc n + j, drop j cs) | j. j \<le> k \<and> j \<le> length (takeWhile (in_class rs) cs)}"
        proof (cases j)
          case 0
          with j show ?thesis by simp
        next
          case (Suc i)
          with j Cons True have "p = (Suc n + i, drop i cs)" "i \<le> k"
              "i \<le> length (takeWhile (in_class rs) cs)"
            by simp_all
          then show ?thesis by blast
        qed
      qed
      finally show ?thesis .
    qed
  qed
qed

lemma star_class:
  "set (rx_ends (Star (Cls rs)) (n, s)) =
     {(n + j, drop j s) | j. j \<le> length (takeWhile (in_class rs) s)}"
proof -
  have "length (takeWhile (in_class rs) s) \<le> length s"
    by (rule length_takeWhile_le)
  then show ?thesis
    by (auto simp add: rx_iter_class)
qed


lemma concat_map_nonempty: "(concat (map f xs) \<noteq> []) = (\<exists>x \<in> set xs. f x \<noteq> [])"
  by (induction xs) auto

lemma newline_not_alnum: "\<not> in_class [(97, 122), (65, 90), (48, 57)] (CHR 0x0A)"
  by (simp add: in_class_def)

lemma star_then_eol:
  "(rx_ends (Seq (Star (Cls rs)) Eol) (n, s) \<noteq> []) =
     (\<exists>j \<le> length (takeWhile (in_class rs) s). drop j s = [] \<or> drop j s = [CHR 0x0A])"
proof -
  have "(rx_ends (Seq (Star (Cls rs)) Eol) (n, s) \<noteq> []) =
      (\<exists>p \<in> set (rx_ends (Star (Cls rs)) (n, s)). snd p = [] \<or> snd p = [CHR 0x0A])"
    by (simp only: rx_ends.simps concat_map_nonempty) auto
  also have "\<dots> =
      (\<exists>j \<le> length (takeWhile (in_class rs) s). drop j s = [] \<or> drop j s = [CHR 0x0A])"
    by (simp only: star_class) (auto simp del: drop_eq_Nil drop_eq_Nil2)
  finally show ?thesis .
qed

lemma take_run:
  "j \<le> length (takeWhile P s) \<Longrightarrow> list_all P (take j s)"
proof -
  assume j: "j \<le> length (takeWhile P s)"
  have "take j s = take j (takeWhile P s)"
    using j by (metis takeWhile_eq_take take_take min.absorb1)
  then show ?thesis
    unfolding list_all_iff by (metis in_set_takeD set_takeWhileD)
qed

lemma run_long: "list_all P u \<Longrightarrow> length u \<le> length (takeWhile P (u @ v))"
  by (simp add: list_all_iff)

lemma run_then_end:
  assumes "\<not> P (CHR 0x0A)"
  shows "(\<exists>j \<le> length (takeWhile P s). drop j s = [] \<or> drop j s = [CHR 0x0A]) =
     (list_all P s \<or> (\<exists>w. s = w @ [CHR 0x0A] \<and> list_all P w))"
proof
  assume "\<exists>j \<le> length (takeWhile P s). drop j s = [] \<or> drop j s = [CHR 0x0A]"
  then obtain j where j: "j \<le> length (takeWhile P s)"
      and d: "drop j s = [] \<or> drop j s = [CHR 0x0A]"
    by blast
  have allp: "list_all P (take j s)"
    using j by (rule take_run)
  from d show "list_all P s \<or> (\<exists>w. s = w @ [CHR 0x0A] \<and> list_all P w)"
  proof
    assume "drop j s = []"
    then have "take j s = s" by simp
    with allp show ?thesis by simp
  next
    assume "drop j s = [CHR 0x0A]"
    then have "s = take j s @ [CHR 0x0A]"
      by (metis append_take_drop_id)
    with allp show ?thesis by blast
  qed
next
  assume "list_all P s \<or> (\<exists>w. s = w @ [CHR 0x0A] \<and> list_all P w)"
  then show "\<exists>j \<le> length (takeWhile P s). drop j s = [] \<or> drop j s = [CHR 0x0A]"
  proof
    assume "list_all P s"
    then have tw: "takeWhile P s = s"
      by (simp add: list_all_iff)
    show ?thesis
      by (rule exI [of _ "length s"]) (simp add: tw)
  next
    assume "\<exists>w. s = w @ [CHR 0x0A] \<and> list_all P w"
    then obtain w where w: "s = w @ [CHR 0x0A]" "list_all P w"
      by blast
    then have tw: "takeWhile P s = w"
      using assms by (simp add: list_all_iff)
    show ?thesis
      by (rule exI [of _ "length w"]) (simp add: tw, simp add: w(1))
  qed
qed

text \<open>The initials pattern accepts a word, and a word followed by a final newline.\<close>

lemma INITIALS_RE_language:
  "re_match INITIALS_RE s = (is_word s \<or> (\<exists>w. is_word w \<and> s = w @ [CHR 0x0A]))"
proof (cases s)
  case Nil
  then show ?thesis
    by (simp add: re_match_def INITIALS_RE_def rx_alpha_def is_word_def)
next
  case (Cons c cs)
  have "re_match INITIALS_RE s =
      (is_alpha c \<and> rx_ends (Seq (Star (Cls [(97, 122), (65, 90), (48, 57)])) Eol) (Suc 0, cs) \<noteq> [])"
    unfolding re_match_def INITIALS_RE_def rx_alpha_def rx_alnum_def is_alpha_def Cons
    by (simp del: rx_ends.simps(4,6) add: rx_ends.simps(4) [of "Cls _"] rx_ends.simps(4) [of Bol])
  also have "\<dots> = (is_alpha c \<and>
      (list_all is_alnum cs \<or> (\<exists>w. cs = w @ [CHR 0x0A] \<and> list_all is_alnum w)))"
    unfolding star_then_eol is_alnum_def [abs_def]
    using run_then_end [where P = "in_class [(97, 122), (65, 90), (48, 57)]" and s = cs,
        OF newline_not_alnum] by simp
  also have "\<dots> = (is_word s \<or> (\<exists>w. is_word w \<and> s = w @ [CHR 0x0A]))"
    unfolding Cons is_word_def by auto
  finally show ?thesis .
qed


lemma newline_space: "is_space (CHR 0x0A)"
  by (simp add: is_space_def in_class_def)

text \<open>The remainders one round of the group can leave.\<close>

lemma group_ends:
  "(r \<in> snd ` set (rx_ends name_group (n, s))) =
     ((\<exists>w c. is_word w \<and> is_space c \<and> s = w @ c # r) \<or>
      (tail_ok r \<and> (\<exists>w. is_word w \<and> s = w @ r)))"
proof (cases s)
  case Nil
  then show ?thesis
    by (simp add: name_group_def rx_alpha_def is_word_def)
next
  case (Cons c cs)
  have ends: "set (rx_ends name_group (n, s)) =
      (if is_alpha c then
         (\<Union>p \<in> {(Suc n + j, drop j cs) | j. j \<le> length (takeWhile is_alnum cs)}.
            set (rx_ends (Alt rx_space Eol) p))
       else {})"
    unfolding name_group_def rx_alpha_def rx_alnum_def is_alpha_def is_alnum_def [abs_def] Cons
    by (simp del: rx_ends.simps(5,6) add: star_class)
  show ?thesis
  proof (cases "is_alpha c")
    case False
    with ends Cons show ?thesis
      by (auto simp add: is_word_def)
  next
    case True
    have alt: "(r \<in> snd ` set (rx_ends (Alt rx_space Eol) (m, t))) =
        ((\<exists>sp. is_space sp \<and> t = sp # r) \<or> (tail_ok r \<and> t = r))" for m t
      by (cases t) (auto simp add: rx_space_def is_space_def tail_ok_def)
    have "(r \<in> snd ` set (rx_ends name_group (n, s))) =
        (\<exists>j \<le> length (takeWhile is_alnum cs).
           r \<in> snd ` set (rx_ends (Alt rx_space Eol) (Suc n + j, drop j cs)))"
      using True by (simp only: ends if_True) (auto simp del: rx_ends.simps)
    also have "\<dots> = (\<exists>j \<le> length (takeWhile is_alnum cs).
        (\<exists>sp. is_space sp \<and> drop j cs = sp # r) \<or> (tail_ok r \<and> drop j cs = r))"
      by (simp only: alt)
    also have "\<dots> = ((\<exists>w c. is_word w \<and> is_space c \<and> s = w @ c # r) \<or>
      (tail_ok r \<and> (\<exists>w. is_word w \<and> s = w @ r)))"
    proof
      assume "\<exists>j \<le> length (takeWhile is_alnum cs).
        (\<exists>sp. is_space sp \<and> drop j cs = sp # r) \<or> (tail_ok r \<and> drop j cs = r)"
      then obtain j where j: "j \<le> length (takeWhile is_alnum cs)"
          and d: "(\<exists>sp. is_space sp \<and> drop j cs = sp # r) \<or> (tail_ok r \<and> drop j cs = r)"
        by blast
      have w: "is_word (c # take j cs)"
        using True take_run [OF j] by (simp add: is_word_def)
      have s: "s = (c # take j cs) @ drop j cs"
        by (simp add: Cons)
      from d show "(\<exists>w c. is_word w \<and> is_space c \<and> s = w @ c # r) \<or>
          (tail_ok r \<and> (\<exists>w. is_word w \<and> s = w @ r))"
      proof
        assume "\<exists>sp. is_space sp \<and> drop j cs = sp # r"
        then obtain sp where "is_space sp" "drop j cs = sp # r" by blast
        with w s show ?thesis by metis
      next
        assume "tail_ok r \<and> drop j cs = r"
        with w s show ?thesis by metis
      qed
    next
      assume "(\<exists>w c. is_word w \<and> is_space c \<and> s = w @ c # r) \<or>
          (tail_ok r \<and> (\<exists>w. is_word w \<and> s = w @ r))"
      then consider w sp where "is_word w" "is_space sp" "s = w @ sp # r"
        | w where "tail_ok r" "is_word w" "s = w @ r"
        by blast
      then show "\<exists>j \<le> length (takeWhile is_alnum cs).
        (\<exists>sp. is_space sp \<and> drop j cs = sp # r) \<or> (tail_ok r \<and> drop j cs = r)"
      proof cases
        case 1
        then obtain u where u: "w = c # u" "list_all is_alnum u" "cs = u @ sp # r"
          using Cons by (auto simp add: is_word_def)
        show ?thesis
          using run_long [OF u(2), of "sp # r"] 1(2) u(3)
          by (intro exI [of _ "length u"]) simp
      next
        case 2
        then obtain u where u: "w = c # u" "list_all is_alnum u" "cs = u @ r"
          using Cons by (auto simp add: is_word_def)
        show ?thesis
          using run_long [OF u(2), of r] 2(1) u(3)
          by (intro exI [of _ "length u"]) simp
      qed
    qed
    finally show ?thesis .
  qed
qed


lemma is_word_not_Nil: "is_word w \<Longrightarrow> w \<noteq> []"
  by (auto simp add: is_word_def)

lemma group_ends_shorter:
  assumes "q \<in> set (rx_ends name_group (n, s))"
  shows "length (snd q) < length s"
proof -
  have "snd q \<in> snd ` set (rx_ends name_group (n, s))"
    using assms by (rule imageI)
  then have "(\<exists>w c. is_word w \<and> is_space c \<and> s = w @ c # snd q) \<or>
      (tail_ok (snd q) \<and> (\<exists>w. is_word w \<and> s = w @ snd q))"
    by (simp only: group_ends)
  then show ?thesis
    using is_word_not_Nil by auto
qed

text \<open>One round of the group followed by a name or by the end of the text is a name.\<close>

lemma group_then_rest:
  assumes "r \<in> snd ` set (rx_ends name_group (n, s))" and "tail_ok r \<or> name_ok r"
  shows "name_ok s"
proof -
  from assms(1) consider w c where "is_word w" "is_space c" "s = w @ c # r"
    | w where "tail_ok r" "is_word w" "s = w @ r"
    unfolding group_ends by blast
  then show ?thesis
  proof cases
    case 1
    from assms(2) show ?thesis
    proof
      assume "tail_ok r"
      then show ?thesis
        using 1 name_ok.last_sep [of w c] name_ok.last_sep_nl [of w c]
        by (auto simp add: tail_ok_def)
    next
      assume "name_ok r"
      then show ?thesis
        using 1 by (simp add: name_ok.more)
    qed
  next
    case 2
    then show ?thesis
      using name_ok.last_word [of w] name_ok.last_sep [of w "CHR 0x0A"] newline_space
      by (auto simp add: tail_ok_def)
  qed
qed

lemma name_first_round:
  assumes "name_ok s"
  shows "\<exists>p \<in> set (rx_ends name_group (n, s)). tail_ok (snd p) \<or> name_ok (snd p)"
proof -
  have "\<exists>r. r \<in> snd ` set (rx_ends name_group (n, s)) \<and> (tail_ok r \<or> name_ok r)"
    using assms
  proof cases
    case last_word
    then have "[] \<in> snd ` set (rx_ends name_group (n, s))"
      unfolding group_ends by (auto simp add: tail_ok_def)
    then show ?thesis
      unfolding tail_ok_def by blast
  next
    case (last_sep w c)
    then have "[] \<in> snd ` set (rx_ends name_group (n, s))"
      unfolding group_ends by blast
    then show ?thesis
      unfolding tail_ok_def by blast
  next
    case (last_sep_nl w c)
    then have "[CHR 0x0A] \<in> snd ` set (rx_ends name_group (n, s))"
      unfolding group_ends by auto
    then show ?thesis
      unfolding tail_ok_def by blast
  next
    case (more w c r)
    then have "r \<in> snd ` set (rx_ends name_group (n, s))"
      unfolding group_ends by blast
    with more(4) show ?thesis
      by blast
  qed
  then show ?thesis
    by blast
qed

lemma rounds_sound:
  "q \<in> set (rx_iter k (rx_ends name_group) (n, s)) \<Longrightarrow> tail_ok (snd q) \<Longrightarrow>
     tail_ok s \<or> name_ok s"
proof (induction k arbitrary: n s)
  case 0
  then show ?case by simp
next
  case (Suc k)
  from Suc.prems(1) consider "q = (n, s)"
    | p where "p \<in> set (rx_ends name_group (n, s))" "q \<in> set (rx_iter k (rx_ends name_group) p)"
    by (auto simp del: rx_ends.simps)
  then show ?case
  proof cases
    case 1
    with Suc.prems(2) show ?thesis by simp
  next
    case 2
    from Suc.IH [of "fst p" "snd p"] 2(2) Suc.prems(2)
    have "tail_ok (snd p) \<or> name_ok (snd p)"
      by simp
    moreover have "snd p \<in> snd ` set (rx_ends name_group (n, s))"
      using 2(1) by (rule imageI)
    ultimately have "name_ok s"
      using group_then_rest by blast
    then show ?thesis ..
  qed
qed

lemma rounds_complete:
  "tail_ok s \<or> name_ok s \<Longrightarrow> length s \<le> k \<Longrightarrow>
     \<exists>q \<in> set (rx_iter k (rx_ends name_group) (n, s)). tail_ok (snd q)"
proof (induction k arbitrary: n s)
  case 0
  then have "s = []" by simp
  then show ?case by (simp add: tail_ok_def)
next
  case (Suc k)
  show ?case
  proof (cases "tail_ok s")
    case True
    then show ?thesis by (auto simp del: rx_ends.simps)
  next
    case False
    with Suc.prems(1) have "name_ok s" by simp
    then obtain p where p: "p \<in> set (rx_ends name_group (n, s))"
        "tail_ok (snd p) \<or> name_ok (snd p)"
      using name_first_round by blast
    have short: "length (snd p) < length s"
      using p(1) by (rule group_ends_shorter)
    with Suc.prems(2) have "length (snd p) \<le> k" by simp
    with Suc.IH [of "snd p" "fst p"] p(2)
    obtain q where q: "q \<in> set (rx_iter k (rx_ends name_group) p)" "tail_ok (snd q)"
      by auto
    have "p \<in> set (filter (\<lambda>q. length (snd q) < length (snd (n, s))) (rx_ends name_group (n, s)))"
      using p(1) short by simp
    with q(1) have "q \<in> set (rx_iter (Suc k) (rx_ends name_group) (n, s))"
      by (simp only: rx_iter.simps list.set set_concat set_map) blast
    with q(2) show ?thesis
      by blast
  qed
qed

lemma NAME_RE_group: "NAME_RE = Seq Bol (Seq (Seq name_group (Star name_group)) Eol)"
  by (simp add: NAME_RE_def name_group_def Plus_def)

text \<open>The name pattern accepts the names described above.\<close>

lemma NAME_RE_language: "re_match NAME_RE s = name_ok s"
proof -
  have "re_match NAME_RE s =
      (\<exists>p \<in> set (rx_ends name_group (0, s)).
         \<exists>q \<in> set (rx_iter (length (snd p)) (rx_ends name_group) p). tail_ok (snd q))"
    unfolding re_match_def NAME_RE_group
    by (simp only: rx_ends.simps concat_map_nonempty) (auto simp add: tail_ok_def)
  also have "\<dots> = name_ok s"
  proof
    assume "\<exists>p \<in> set (rx_ends name_group (0, s)).
         \<exists>q \<in> set (rx_iter (length (snd p)) (rx_ends name_group) p). tail_ok (snd q)"
    then obtain p q where p: "p \<in> set (rx_ends name_group (0, s))"
        and q: "q \<in> set (rx_iter (length (snd p)) (rx_ends name_group) (fst p, snd p))"
          "tail_ok (snd q)"
      by auto
    from q have "tail_ok (snd p) \<or> name_ok (snd p)"
      by (rule rounds_sound)
    moreover have "snd p \<in> snd ` set (rx_ends name_group (0, s))"
      using p by (rule imageI)
    ultimately show "name_ok s"
      using group_then_rest by blast
  next
    assume "name_ok s"
    then obtain p where p: "p \<in> set (rx_ends name_group (0, s))"
        "tail_ok (snd p) \<or> name_ok (snd p)"
      using name_first_round by blast
    from rounds_complete [OF p(2) le_refl, of "fst p"]
    have "\<exists>q \<in> set (rx_iter (length (snd p)) (rx_ends name_group) p). tail_ok (snd q)"
      by simp
    with p(1) show "\<exists>p \<in> set (rx_ends name_group (0, s)).
         \<exists>q \<in> set (rx_iter (length (snd p)) (rx_ends name_group) p). tail_ok (snd q)"
      by blast
  qed
  finally show ?thesis .
qed

subsection \<open>The submit handler\<close>

lemma submit_invalid:
  "\<not> valid_input nm ini \<Longrightarrow> \<exists>msg. submit nmr cmp nm ini sc cls = (Rejected msg, sc, cls)"
  by (auto simp add: submit_def valid_input_def)

lemma submit_valid:
  assumes "valid_input nm ini"
  shows "submit nmr cmp nm ini sc cls =
     (Dismissed ''confirm'',
      sc \<lparr> transforms := transforms sc @ [nmr sc (camelCase nm @ ''_markers'')],
           nodes := (nodes sc)(nmr sc (camelCase nm @ ''_markers'') \<mapsto> character_record nm ini) \<rparr>,
      setCharacter cmp ini nm cls)"
proof -
  have nm: "format_name (name (setCharacter cmp ini nm cls)) = camelCase nm"
    by (simp add: setCharacter_def Let_def format_name_def)
  show ?thesis
    using assms
    by (simp add: submit_def valid_input_def nm group_def Let_def character_record_def)
qed

lemma valid_sample: "valid_input ''my rig'' ''MR''"
  by code_simp




subsection \<open>From the dialog back to the scene search\<close>

lemma carries_nodes:
  "nodes sc1 obj = nodes sc2 obj \<Longrightarrow> carries sc1 obj = carries sc2 obj"
  by (simp add: carries_def attr_exists_def)

lemma carries_record:
  "nodes sc obj = Some (character_record nm ini) \<Longrightarrow> carries sc obj"
  by (simp add: carries_def attr_exists_def character_record_def
      NAME_ATTR_def INITIALS_ATTR_def LAYOUT_SIZE_ATTR_def)

lemma set_from_record:
  "nodes sc obj = Some (character_record nm ini) \<Longrightarrow>
     set_from cmp sc obj cls = setCharacter cmp ini nm cls"
  by (simp add: set_from_def get_str_def character_record_def
      NAME_ATTR_def INITIALS_ATTR_def LAYOUT_SIZE_ATTR_def)

lemma setCharacter_twice:
  "setCharacter cmp ini nm (setCharacter cmp ini nm cls) = setCharacter cmp ini nm cls"
  by (simp add: setCharacter_def Let_def)

lemma load_single_record:
  assumes rec: "nodes sc g = Some (character_record nm ini)"
    and others: "\<forall>obj. obj \<noteq> g \<longrightarrow> \<not> carries sc obj"
    and visited: "g \<in> set (transforms sc)"
  shows "load cmp sc cls = (True, setCharacter cmp ini nm cls)"
proof -
  let ?objs = "path_objects sc @ transforms sc"
  have "carries sc g"
    using rec by (rule carries_record)
  with visited have found: "fst (first_found cmp sc ?objs cls)"
    by (auto simp add: first_found_flag)
  then obtain obj where obj: "carries sc obj"
      "snd (first_found cmp sc ?objs cls) = set_from cmp sc obj cls"
    using first_found_result [of cmp sc ?objs cls] by blast
  from obj(1) others have "obj = g"
    by blast
  with obj(2) rec have "snd (first_found cmp sc ?objs cls) = setCharacter cmp ini nm cls"
    by (simp add: set_from_record)
  with found show ?thesis
    by (simp add: load_first_found prod_eq_iff)
qed

text \<open>Claim C8. A character record created by a successful submission with a name and
  initials is found by the scene search. In a scene where nothing else carries a record
  (the scene before the submission has none), whatever the selection is afterwards and
  in whatever order the traversal visits the transform nodes, \<open>_load\<close> returns \<open>True\<close>
  and sets the class attributes by \<open>setCharacter\<close> on the same name and initials; the
  submission set them by that same call, so \<open>_load\<close> leaves the state the submission
  set exactly as it is.\<close>

theorem submit_then_load_round_trip:
  assumes "valid_input nm ini"
    and "\<forall>obj. \<not> carries sc obj"
    and "set ts = set (transforms (fst (snd (submit nmr cmp nm ini sc cls))))"
  shows "load cmp ((fst (snd (submit nmr cmp nm ini sc cls))) \<lparr> selection := sel, transforms := ts \<rparr>) prior
           = (True, setCharacter cmp ini nm prior) \<and>
         snd (snd (submit nmr cmp nm ini sc cls)) = setCharacter cmp ini nm cls \<and>
         load cmp ((fst (snd (submit nmr cmp nm ini sc cls))) \<lparr> selection := sel, transforms := ts \<rparr>)
             (snd (snd (submit nmr cmp nm ini sc cls)))
           = (True, snd (snd (submit nmr cmp nm ini sc cls)))"
proof -
  let ?g = "nmr sc (camelCase nm @ ''_markers'')"
  let ?sc' = "fst (snd (submit nmr cmp nm ini sc cls))"
  let ?sc'' = "?sc' \<lparr> selection := sel, transforms := ts \<rparr>"
  note sub = submit_valid [OF assms(1), of nmr cmp sc cls]
  have rec: "nodes ?sc'' ?g = Some (character_record nm ini)"
    by (simp add: sub)
  have others: "\<forall>obj. obj \<noteq> ?g \<longrightarrow> \<not> carries ?sc'' obj"
  proof (intro allI impI)
    fix obj assume "obj \<noteq> ?g"
    then have "nodes ?sc'' obj = nodes sc obj"
      by (simp add: sub)
    then have "carries ?sc'' obj = carries sc obj"
      by (rule carries_nodes)
    with assms(2) show "\<not> carries ?sc'' obj"
      by simp
  qed
  have visited: "?g \<in> set (transforms ?sc'')"
    using assms(3) by (simp add: sub)
  have l: "load cmp ?sc'' c = (True, setCharacter cmp ini nm c)" for c
    using rec others visited by (rule load_single_record)
  have s: "snd (snd (submit nmr cmp nm ini sc cls)) = setCharacter cmp ini nm cls"
    by (simp add: sub)
  show ?thesis
    by (simp only: l s setCharacter_twice simp_thms)
qed

theorem submit_then_load_round_trip_witness:
  "load sample_compose
     ((fst (snd (submit grant sample_compose ''my rig'' ''MR'' empty_scene Character_init)))
        \<lparr> selection := [''|MyRig_markers''], transforms := [''MyRig_markers''] \<rparr>) Character_init
     = (True, setCharacter sample_compose ''MR'' ''my rig'' Character_init) \<and>
   snd (snd (submit grant sample_compose ''my rig'' ''MR'' empty_scene Character_init))
     = setCharacter sample_compose ''MR'' ''my rig'' Character_init"
proof -
  have a: "\<forall>obj. \<not> carries empty_scene obj"
    by (simp add: carries_def attr_exists_def empty_scene_def)
  have b: "set [''MyRig_markers''] =
      set (transforms (fst (snd (submit grant sample_compose ''my rig'' ''MR''
        empty_scene Character_init))))"
    by (simp add: submit_valid [OF valid_sample] grant_def camelCase_sample empty_scene_def)
  from submit_then_load_round_trip [OF valid_sample a b,
      where sel = "[''|MyRig_markers'']" and prior = Character_init]
  show ?thesis
    by simp
qed

end
